theory Spec2Isabelle
  imports Complex_Main "HOL-Library.AList"
begin

section \<open>The value model\<close>

text \<open>
  A document node is what \<^verbatim>\<open>encoding/json\<close> decodes into an \<^verbatim>\<open>any\<close>: \<^verbatim>\<open>nil\<close>, \<^verbatim>\<open>bool\<close>,
  \<^verbatim>\<open>float64\<close>, \<^verbatim>\<open>string\<close>, \<^verbatim>\<open>[]any\<close> and \<^verbatim>\<open>map[string]any\<close>. A finite \<^verbatim>\<open>float64\<close> is a
  rational number, and the program only ever compares numbers. An array is the list of its
  visible elements. An object is an association list with distinct keys; Go does not fix
  the iteration order of a map, so nothing below depends on the order of the entries
  except literal equality of two documents, which is stronger than \<^verbatim>\<open>reflect.DeepEqual\<close>.
\<close>

datatype json =
    JNull
  | JBool bool
  | JNumber rat
  | JString string
  | JArray "json list"
  | JObject "(string \<times> json) list"

text \<open>The wire-level operation: every member is a pointer in the source, \<^verbatim>\<open>nil\<close> when absent.\<close>

record Operation =
  OP :: "string option"
  Path :: "string option"
  Value :: "json option"
  From :: "string option"

section \<open>Errors and panics\<close>

text \<open>
  The source builds its errors with \<^verbatim>\<open>errors.New\<close> and \<^verbatim>\<open>fmt.Errorf\<close>; an error built with
  \<^verbatim>\<open>%w\<close> wraps another one, which \<^verbatim>\<open>errors.Is\<close> finds again. Each message of the source is a
  constructor here, a wrapped error is an argument. A run-time panic of Go is not an error
  value of the program; it is kept apart as \<open>RuntimePanic\<close> and never wrapped.
\<close>

datatype panic = IndexOutOfRange | SliceBoundsOutOfRange | NilDereference

datatype error =
    ErrStop
  | ErrNotExists
  | MustContainOp
  | MustContainPath
  | PointerMustStartWithSlash
  | BadArrayIndex string
  | AtoiSyntax string
  | AtoiRange string
  | ArrayIndexOutOfRange int string
  | CannotVisitType
  | BadTypeForAdd
  | BadTypeForReplace
  | BadTypeForRemove
  | BadTypeForMove
  | BadTypeForApply
  | UnknownOperation string
  | MustContainValue string
  | MustContainFrom string
  | CheckFailed error Operation
  | PathNotExists string error
  | OperationStopped string error
  | OperationFailed string error
  | RuntimePanic panic

text \<open>\<^verbatim>\<open>errors.Is(err, target)\<close> for the two sentinel targets: follow the \<^verbatim>\<open>%w\<close> chain.\<close>

fun errors_Is :: "error \<Rightarrow> error \<Rightarrow> bool" where
  "errors_Is (CheckFailed e op) t = (CheckFailed e op = t \<or> errors_Is e t)"
| "errors_Is (PathNotExists s e) t = (PathNotExists s e = t \<or> errors_Is e t)"
| "errors_Is (OperationStopped s e) t = (OperationStopped s e = t \<or> errors_Is e t)"
| "errors_Is (OperationFailed s e) t = (OperationFailed s e = t \<or> errors_Is e t)"
| "errors_Is e t = (e = t)"

definition bindE :: "error + 'a \<Rightarrow> ('a \<Rightarrow> error + 'b) \<Rightarrow> error + 'b" where
  "bindE m f = (case m of Inl e \<Rightarrow> Inl e | Inr x \<Rightarrow> f x)"

section \<open>Go slices\<close>

text \<open>
  A slice is a window on a backing array: the array, the offset of the window and its
  length. Its capacity is what is left of the array after the offset. Slicing may reach
  past the length up to the capacity, \<^verbatim>\<open>append\<close> writes into the backing array while the
  capacity lasts and allocates otherwise (here: an array of exactly the length needed), and
  every index and slice expression is checked at run time.
\<close>

datatype 'a slice = Slice (buf: "'a list") (off: nat) (len_s: nat)

definition cap_s :: "'a slice \<Rightarrow> nat" where
  "cap_s s = length (buf s) - off s"

definition elems :: "'a slice \<Rightarrow> 'a list" where
  "elems s = take (len_s s) (drop (off s) (buf s))"

definition wf_slice :: "'a slice \<Rightarrow> bool" where
  "wf_slice s = (off s + len_s s \<le> length (buf s))"

definition slice_of :: "'a list \<Rightarrow> 'a slice" where
  "slice_of xs = Slice xs 0 (length xs)"

text \<open>\<^verbatim>\<open>make([]T, n)\<close>, with the zero value of \<open>T\<close> given.\<close>

definition make_s :: "'a \<Rightarrow> nat \<Rightarrow> 'a slice" where
  "make_s z n = Slice (replicate n z) 0 n"

text \<open>\<^verbatim>\<open>s[i]\<close> as a value.\<close>

definition index_s :: "'a slice \<Rightarrow> int \<Rightarrow> error + 'a" where
  "index_s s i =
     (if 0 \<le> i \<and> i < int (len_s s) then Inr (buf s ! (off s + nat i))
      else Inl (RuntimePanic IndexOutOfRange))"

text \<open>\<^verbatim>\<open>s[i] = v\<close>: the backing array is written.\<close>

definition assign_s :: "'a slice \<Rightarrow> int \<Rightarrow> 'a \<Rightarrow> error + 'a slice" where
  "assign_s s i v =
     (if 0 \<le> i \<and> i < int (len_s s)
      then Inr (Slice ((buf s)[off s + nat i := v]) (off s) (len_s s))
      else Inl (RuntimePanic IndexOutOfRange))"

text \<open>\<^verbatim>\<open>s[lo:hi]\<close>: legal when \<open>0 \<le> lo \<le> hi \<le> cap(s)\<close>.\<close>

definition reslice :: "'a slice \<Rightarrow> int \<Rightarrow> int \<Rightarrow> error + 'a slice" where
  "reslice s lo hi =
     (if 0 \<le> lo \<and> lo \<le> hi \<and> hi \<le> int (cap_s s)
      then Inr (Slice (buf s) (off s + nat lo) (nat hi - nat lo))
      else Inl (RuntimePanic SliceBoundsOutOfRange))"

text \<open>\<^verbatim>\<open>s[:hi]\<close> and \<^verbatim>\<open>s[lo:]\<close>.\<close>

definition slice_to :: "'a slice \<Rightarrow> int \<Rightarrow> error + 'a slice" where
  "slice_to s hi = reslice s 0 hi"

definition slice_from :: "'a slice \<Rightarrow> int \<Rightarrow> error + 'a slice" where
  "slice_from s lo = reslice s lo (int (len_s s))"

text \<open>
  \<^verbatim>\<open>append(s, xs...)\<close>: the elements \<open>xs\<close> have been read before the array is written, as
  the overlapping copy of the run time guarantees.
\<close>

definition append_s :: "'a slice \<Rightarrow> 'a list \<Rightarrow> 'a slice" where
  "append_s s xs =
     (if len_s s + length xs \<le> cap_s s
      then Slice (take (off s + len_s s) (buf s) @ xs
                    @ drop (off s + len_s s + length xs) (buf s))
                 (off s) (len_s s + length xs)
      else Slice (elems s @ xs) 0 (len_s s + length xs))"

text \<open>
  \<^verbatim>\<open>copy(dst, src)\<close> writes the first \<open>min (len dst) (len src)\<close> elements of \<open>src\<close> into
  the backing array of \<open>dst\<close>; the result is that array.
\<close>

definition copy_s :: "'a slice \<Rightarrow> 'a slice \<Rightarrow> 'a list" where
  "copy_s dst src =
     (let n = min (len_s dst) (len_s src)
      in take (off dst) (buf dst) @ take n (elems src) @ drop (off dst + n) (buf dst))"

text \<open>
  \<^verbatim>\<open>func sliceRemove(s []any, i int) []any { return append(s[:i], s[i+1:]...) }\<close>
\<close>

definition sliceRemove :: "'a slice \<Rightarrow> int \<Rightarrow> error + 'a slice" where
  "sliceRemove s i =
     bindE (slice_to s i) (\<lambda>front.
     bindE (slice_from s (i + 1)) (\<lambda>back.
     Inr (append_s front (elems back))))"

text \<open>
  \<^verbatim>\<open>sliceInsert\<close>: append when \<open>i\<close> is the length; otherwise a new array of one more
  element, filled by two copies around the new element. The views \<^verbatim>\<open>n[:i]\<close> and
  \<^verbatim>\<open>n[i+1:]\<close> share the array of \<open>n\<close>, so each copy is written back into \<open>n\<close>.
\<close>

definition sliceInsert :: "'a \<Rightarrow> 'a slice \<Rightarrow> int \<Rightarrow> 'a \<Rightarrow> error + 'a slice" where
  "sliceInsert z s i v =
     (if i = int (len_s s) then Inr (append_s s [v])
      else
        let n = make_s z (len_s s + 1) in
        bindE (slice_to n i) (\<lambda>d1.
        bindE (slice_to s i) (\<lambda>s1.
        let n1 = Slice (copy_s d1 s1) (off n) (len_s n) in
        bindE (assign_s n1 i v) (\<lambda>n2.
        bindE (slice_from n2 (i + 1)) (\<lambda>d2.
        bindE (slice_from s i) (\<lambda>s2.
        Inr (Slice (copy_s d2 s2) (off n2) (len_s n2))))))))"

section \<open>Configuration\<close>

text \<open>
  The fields of \<^verbatim>\<open>Patch\<close> other than the registry. A handler receives the \<^verbatim>\<open>*Patch\<close> in
  the source; here it receives these fields, which is all the built-in handlers read.
\<close>

record config =
  StrictPathExists :: bool
  SupportNegativeArrayIndex :: bool
  JSONPrefix :: string
  JSONIndent :: string
  JSONEscapeHTML :: bool

section \<open>Array indices\<close>

text \<open>
  The two index patterns are anchored at both ends, so \<^verbatim>\<open>MatchString\<close> asks whether the
  whole token is in the language of the pattern. A pattern is a regular expression over
  bytes, matched by derivatives.
\<close>

datatype rexp =
    Never
  | Eps
  | Lit char
  | Range char char
  | Alt rexp rexp
  | Seq rexp rexp
  | Star rexp

fun nullable :: "rexp \<Rightarrow> bool" where
  "nullable Never = False"
| "nullable Eps = True"
| "nullable (Lit c) = False"
| "nullable (Range a b) = False"
| "nullable (Alt r s) = (nullable r \<or> nullable s)"
| "nullable (Seq r s) = (nullable r \<and> nullable s)"
| "nullable (Star r) = True"

definition in_range :: "char \<Rightarrow> char \<Rightarrow> char \<Rightarrow> bool" where
  "in_range a b c = ((of_char a :: nat) \<le> of_char c \<and> (of_char c :: nat) \<le> of_char b)"

fun deriv :: "char \<Rightarrow> rexp \<Rightarrow> rexp" where
  "deriv c Never = Never"
| "deriv c Eps = Never"
| "deriv c (Lit a) = (if c = a then Eps else Never)"
| "deriv c (Range a b) = (if in_range a b c then Eps else Never)"
| "deriv c (Alt r s) = Alt (deriv c r) (deriv c s)"
| "deriv c (Seq r s) =
     (if nullable r then Alt (Seq (deriv c r) s) (deriv c s) else Seq (deriv c r) s)"
| "deriv c (Star r) = Seq (deriv c r) (Star r)"

fun MatchString :: "rexp \<Rightarrow> string \<Rightarrow> bool" where
  "MatchString r [] = nullable r"
| "MatchString r (c # cs) = MatchString (deriv c r) cs"

text \<open>\<^verbatim>\<open>^(0|([1-9][0-9]*))$\<close> and \<^verbatim>\<open>^-?(0|([1-9][0-9]*))$\<close>.\<close>

definition indexRE :: rexp where
  "indexRE = Alt (Lit CHR ''0'') (Seq (Range CHR ''1'' CHR ''9'') (Star (Range CHR ''0'' CHR ''9'')))"

definition negativeIndexRE :: rexp where
  "negativeIndexRE = Seq (Alt (Lit CHR ''-'') Eps) indexRE"

text \<open>
  \<^verbatim>\<open>strconv.Atoi\<close> of the Go library, for a 64-bit \<^verbatim>\<open>int\<close>: an optional sign, then one or
  more decimal digits; a syntax error otherwise, and a range error when the number does
  not fit.
\<close>

definition is_digit :: "char \<Rightarrow> bool" where
  "is_digit c = in_range CHR ''0'' CHR ''9'' c"

definition digit_val :: "char \<Rightarrow> int" where
  "digit_val c = int (of_char c) - 48"

definition decimal :: "string \<Rightarrow> int" where
  "decimal s = foldl (\<lambda>n c. n * 10 + digit_val c) 0 s"

definition maxInt :: int where
  "maxInt = 9223372036854775807"

definition minInt :: int where
  "minInt = - 9223372036854775808"

definition Atoi :: "string \<Rightarrow> error + int" where
  "Atoi s =
     (let neg = (s \<noteq> [] \<and> hd s = CHR ''-'');
          digits = (if s \<noteq> [] \<and> (hd s = CHR ''-'' \<or> hd s = CHR ''+'') then tl s else s)
      in if digits = [] \<or> \<not> list_all is_digit digits then Inl (AtoiSyntax s)
         else let n = (if neg then - decimal digits else decimal digits)
              in if n < minInt \<or> maxInt < n then Inl (AtoiRange s) else Inr n)"

text \<open>Addition of two \<^verbatim>\<open>int\<close>s of the machine: the sum wraps around at 64 bits.\<close>

definition add_int :: "int \<Rightarrow> int \<Rightarrow> int" where
  "add_int a b = (a + b + 9223372036854775808) mod 18446744073709551616 - 9223372036854775808"

text \<open>
  \<^verbatim>\<open>ParseArrayIndex\<close>. In the branch without negative indices the source returns early,
  with the index and no error, when the parsed number is negative.
\<close>

definition ParseArrayIndex :: "'a config_scheme \<Rightarrow> int \<Rightarrow> string \<Rightarrow> error + int" where
  "ParseArrayIndex p sz s =
     (if s = ''-'' then (if sz = 0 then Inr 0 else Inr sz)
      else if SupportNegativeArrayIndex p then
        (if \<not> MatchString negativeIndexRE s then Inl (BadArrayIndex s)
         else case Atoi s of
           Inl e \<Rightarrow> Inl e
         | Inr i0 \<Rightarrow>
             let i = (if i0 < 0 then add_int sz i0 else i0)
             in if i < 0 \<or> i > sz then Inl (ArrayIndexOutOfRange sz s) else Inr i)
      else
        (if \<not> MatchString indexRE s then Inl (BadArrayIndex s)
         else case Atoi s of
           Inl e \<Rightarrow> Inl e
         | Inr i \<Rightarrow>
             if i < 0 then Inr i
             else if i < 0 \<or> i > sz then Inl (ArrayIndexOutOfRange sz s) else Inr i))"

text \<open>
  For the statements about \<open>ParseArrayIndex\<close>: the shape of a token of the first pattern
  (a single \<^verbatim>\<open>0\<close>, or a digit from 1 to 9 followed by digits), the integer a token
  denotes, whether the active pattern accepts a token, the index it resolves to, and whether
  its integer fits the machine \<^verbatim>\<open>int\<close>.
\<close>

definition is_index :: "string \<Rightarrow> bool" where
  "is_index s = (s = ''0'' \<or>
     (case s of [] \<Rightarrow> False | c # t \<Rightarrow> in_range CHR ''1'' CHR ''9'' c \<and> list_all is_digit t))"

definition token_value :: "string \<Rightarrow> int" where
  "token_value s = (case s of [] \<Rightarrow> 0 | c # t \<Rightarrow> if c = CHR ''-'' then - decimal t else decimal s)"

definition accepted :: "'a config_scheme \<Rightarrow> string \<Rightarrow> bool" where
  "accepted p s =
     (s = ''-'' \<or> MatchString (if SupportNegativeArrayIndex p then negativeIndexRE else indexRE) s)"

definition resolved :: "'a config_scheme \<Rightarrow> int \<Rightarrow> string \<Rightarrow> int" where
  "resolved p sz s =
     (if s = ''-'' then sz
      else if SupportNegativeArrayIndex p \<and> token_value s < 0 then sz + token_value s
      else token_value s)"

definition fits_int :: "string \<Rightarrow> bool" where
  "fits_int s = (minInt \<le> token_value s \<and> token_value s \<le> maxInt)"

section \<open>JSON pointers\<close>

text \<open>
  \<^verbatim>\<open>strings.NewReplacer(old1, new1, old2, new2, ...).Replace\<close>: one pass from left to
  right; at each position the first pair, in argument order, whose old string starts there
  is replaced and skipped, and a byte where none starts is kept. (The library treats an
  empty old string specially; here it never matches, and the replacer of this program has
  none.)
\<close>

fun lookup_pair :: "(string \<times> string) list \<Rightarrow> string \<Rightarrow> (string \<times> string) option" where
  "lookup_pair [] s = None"
| "lookup_pair ((old, new) # ps) s =
     (if old \<noteq> [] \<and> take (length old) s = old then Some (old, new) else lookup_pair ps s)"

lemma lookup_pair_Some: "lookup_pair ps s = Some (old, new) \<Longrightarrow> old \<noteq> [] \<and> take (length old) s = old"
  by (induction ps) (auto split: if_splits)

function Replace :: "(string \<times> string) list \<Rightarrow> string \<Rightarrow> string" where
  "Replace ps s =
     (if s = [] then []
      else case lookup_pair ps s of
        Some (old, new) \<Rightarrow> new @ Replace ps (drop (length old) s)
      | None \<Rightarrow> hd s # Replace ps (tl s))"
  by pat_completeness auto
termination
proof (relation "measure (\<lambda>(ps, s). length s)")
  show "wf (measure (\<lambda>(ps, s). length s))" by simp
next
  fix ps :: "(string \<times> string) list" and s :: string and x2 old new
  assume "s \<noteq> []" and "lookup_pair ps s = Some x2" and "(old, new) = x2"
  then have "old \<noteq> []" using lookup_pair_Some [of ps s old new] by simp
  with \<open>s \<noteq> []\<close> show "((ps, drop (length old) s), (ps, s)) \<in> measure (\<lambda>(ps, s). length s)"
    by (cases old) auto
next
  fix ps :: "(string \<times> string) list" and s :: string
  assume "s \<noteq> []"
  then show "((ps, tl s), (ps, s)) \<in> measure (\<lambda>(ps, s). length s)"
    by (cases s) auto
qed

declare Replace.simps [simp del]

definition unescapeReplace :: "(string \<times> string) list" where
  "unescapeReplace = [(''~1'', ''/''), (''~0'', ''~'')]"

definition unescapePath :: "string \<Rightarrow> string" where
  "unescapePath path = Replace unescapeReplace path"

text \<open>
  The spec's wording of the same function: first every \<^verbatim>\<open>~1\<close> becomes \<^verbatim>\<open>/\<close>, then every
  \<^verbatim>\<open>~0\<close> becomes \<^verbatim>\<open>~\<close>, each by a pass of its own over the whole string.
\<close>

definition ReplaceAll :: "string \<Rightarrow> string \<Rightarrow> string \<Rightarrow> string" where
  "ReplaceAll old new s = Replace [(old, new)] s"

definition unescape_two_passes :: "string \<Rightarrow> string" where
  "unescape_two_passes s = ReplaceAll ''~0'' ''~'' (ReplaceAll ''~1'' ''/'' s)"

text \<open>
  Modelled from the spec: the escaping of a segment, which the repository does not
  contain (``escape \<^verbatim>\<open>~1\<close> to \<^verbatim>\<open>/\<close>, \<^verbatim>\<open>~0\<close> to \<^verbatim>\<open>~\<close> on decode, and inverse on any
  re-encoding''): \<^verbatim>\<open>~\<close> is written \<^verbatim>\<open>~0\<close> and \<^verbatim>\<open>/\<close> is written \<^verbatim>\<open>~1\<close>.
\<close>

definition escapePath :: "string \<Rightarrow> string" where
  "escapePath s =
     concat (map (\<lambda>c. if c = CHR ''~'' then ''~0'' else if c = CHR ''/'' then ''~1'' else [c]) s)"

text \<open>The recursion scheme of a pass over a segment, two bytes at a time after a \<^verbatim>\<open>~\<close>.\<close>

fun unescape_scheme :: "string \<Rightarrow> string" where
  "unescape_scheme (c # d # s) =
     (if c = CHR ''~'' \<and> (d = CHR ''1'' \<or> d = CHR ''0'') then unescape_scheme s
      else unescape_scheme (d # s))"
| "unescape_scheme [c] = [c]"
| "unescape_scheme [] = []"

text \<open>\<^verbatim>\<open>strings.Split(s, "/")\<close>: the pieces between the separators, one more than separators.\<close>

fun Split :: "char \<Rightarrow> string \<Rightarrow> string list" where
  "Split sep [] = [[]]"
| "Split sep (c # cs) =
     (if c = sep then [] # Split sep cs
      else case Split sep cs of
        [] \<Rightarrow> [[c]]
      | piece # pieces \<Rightarrow> (c # piece) # pieces)"

definition IsTheWholeDocument :: "string \<Rightarrow> bool" where
  "IsTheWholeDocument origin = (origin = [])"

text \<open>\<^verbatim>\<open>Path\<close>: the pieces are unescaped, the first one is dropped (\<^verbatim>\<open>v[1:]\<close>).\<close>

definition pointer_Path :: "string \<Rightarrow> string list" where
  "pointer_Path origin = tl (map unescapePath (Split CHR ''/'' origin))"

definition pointer_Check :: "string \<Rightarrow> error option" where
  "pointer_Check origin =
     (if origin = [] then None
      else if hd origin \<noteq> CHR ''/'' then Some PointerMustStartWithSlash
      else None)"

definition pointer_ParentPath :: "string \<Rightarrow> string list" where
  "pointer_ParentPath origin =
     (let v = pointer_Path origin in if length v = 0 then [] else take (length v - 1) v)"

definition pointer_SameParent :: "string \<Rightarrow> string \<Rightarrow> bool" where
  "pointer_SameParent p q =
     (let a = pointer_ParentPath p; b = pointer_ParentPath q
      in if a = [] \<and> b = [] then True
         else if length a \<noteq> length b then False
         else list_all (\<lambda>(x, y). x = y) (zip a b))"

definition pointer_LastToken :: "string \<Rightarrow> string" where
  "pointer_LastToken origin =
     (let v = pointer_Path origin in if length v = 0 then [] else v ! (length v - 1))"

section \<open>The navigator\<close>

text \<open>
  The source mutates the document in place, and a \<^verbatim>\<open>Setter\<close> is a closure that writes one
  slot of a container it has captured. Here the document is a value and is passed along: a
  setter takes the new content of its slot and returns the document with that slot
  rewritten. \<open>visitPathPart\<close> returns the setter of the slot inside the node it is given;
  \<open>VisitPath\<close> composes it with the way back to the root, which in the source is implicit
  in the sharing of the containers. Every setter of the program is used right after the
  walk that made it, before anything else is written, so the captured containers are the
  current ones.
\<close>

type_synonym Setter = "json \<Rightarrow> json"

definition visitPathPart ::
  "'a config_scheme \<Rightarrow> json \<Rightarrow> string \<Rightarrow> error + json \<times> Setter" where
  "visitPathPart p node part =
     (case node of
        JObject v \<Rightarrow>
          (case map_of v part of
             None \<Rightarrow> Inl ErrNotExists
           | Some g \<Rightarrow> Inr (g, \<lambda>n. JObject (AList.update part n v)))
      | JArray v \<Rightarrow>
          if length v = 0 then Inl ErrNotExists
          else (case ParseArrayIndex p (int (length v)) part of
             Inl e \<Rightarrow> Inl e
           | Inr i \<Rightarrow>
               if i = int (length v) then Inl ErrNotExists
               else (case index_s (slice_of v) i of
                  Inl e \<Rightarrow> Inl e
                | Inr g \<Rightarrow> Inr (g, \<lambda>n. JArray (v[nat i := n]))))
      | _ \<Rightarrow> Inl CannotVisitType)"

text \<open>The loop of \<^verbatim>\<open>VisitPath\<close>: the current node and the setter of its slot.\<close>

fun visit_loop ::
  "'a config_scheme \<Rightarrow> json \<Rightarrow> Setter \<Rightarrow> string list \<Rightarrow> error + json \<times> Setter" where
  "visit_loop p node setter [] = Inr (node, setter)"
| "visit_loop p node setter (part # parts) =
     (case visitPathPart p node part of
        Inl e \<Rightarrow> Inl e
      | Inr (child, inner) \<Rightarrow> visit_loop p child (\<lambda>n. setter (inner n)) parts)"

text \<open>With no segment the setter rebinds the root: \<^verbatim>\<open>func(n any) { *o = n }\<close>.\<close>

definition VisitPath ::
  "'a config_scheme \<Rightarrow> json \<Rightarrow> string list \<Rightarrow> error + json \<times> Setter" where
  "VisitPath p doc parts = visit_loop p doc (\<lambda>n. n) parts"

section \<open>The mutators\<close>

text \<open>
  Each mutator takes the container, the setter of the container's slot, and the document
  as it stands; it returns the error, if any, and the document afterwards. A container
  that the source writes in place (a map, an element of an array) is written back through
  the setter of its slot.
\<close>

definition AddValue ::
  "'a config_scheme \<Rightarrow> json \<Rightarrow> Setter \<Rightarrow> string \<Rightarrow> json \<Rightarrow> json \<Rightarrow> error option \<times> json" where
  "AddValue p node setter key value d =
     (case node of
        JObject v \<Rightarrow> (None, setter (JObject (AList.update key value v)))
      | JArray v \<Rightarrow>
          (case ParseArrayIndex p (int (length v)) key of
             Inl e \<Rightarrow> (Some e, d)
           | Inr i \<Rightarrow>
               (case sliceInsert JNull (slice_of v) i value of
                  Inl e \<Rightarrow> (Some e, d)
                | Inr v' \<Rightarrow> (None, setter (JArray (elems v')))))
      | _ \<Rightarrow> (Some BadTypeForAdd, d))"

definition ReplaceValue ::
  "'a config_scheme \<Rightarrow> json \<Rightarrow> Setter \<Rightarrow> string \<Rightarrow> json \<Rightarrow> json \<Rightarrow> error option \<times> json" where
  "ReplaceValue p node setter key value d =
     (case node of
        JObject v \<Rightarrow>
          if StrictPathExists p \<and> map_of v key = None then (Some ErrNotExists, d)
          else (None, setter (JObject (AList.update key value v)))
      | JArray v \<Rightarrow>
          (case ParseArrayIndex p (int (length v)) key of
             Inl e \<Rightarrow> (Some e, d)
           | Inr i \<Rightarrow>
               if int (length v) = i then
                 (if StrictPathExists p then (Some ErrNotExists, d) else (None, d))
               else (case assign_s (slice_of v) i value of
                  Inl e \<Rightarrow> (Some e, d)
                | Inr v' \<Rightarrow> (None, setter (JArray (elems v')))))
      | _ \<Rightarrow> (Some BadTypeForReplace, d))"

definition RemoveValue ::
  "'a config_scheme \<Rightarrow> json \<Rightarrow> Setter \<Rightarrow> string \<Rightarrow> json \<Rightarrow> error option \<times> json" where
  "RemoveValue p node setter key d =
     (case node of
        JObject v \<Rightarrow>
          if StrictPathExists p \<and> map_of v key = None then (Some ErrNotExists, d)
          else (None, setter (JObject (AList.delete key v)))
      | JArray v \<Rightarrow>
          (case ParseArrayIndex p (int (length v)) key of
             Inl e \<Rightarrow> (if StrictPathExists p then (Some ErrNotExists, d) else (None, d))
           | Inr i \<Rightarrow>
               if int (length v) = i then
                 (if StrictPathExists p then (Some ErrNotExists, d) else (None, d))
               else (case sliceRemove (slice_of v) i of
                  Inl e \<Rightarrow> (Some e, d)
                | Inr v' \<Rightarrow> (None, setter (JArray (elems v')))))
      | _ \<Rightarrow> (Some BadTypeForRemove, d))"

text \<open>
  \<^verbatim>\<open>MoveValue\<close>, array branch: both tokens are parsed against the length before the
  removal; then \<^verbatim>\<open>e := v[fi]\<close>, \<^verbatim>\<open>sliceRemove\<close>, \<^verbatim>\<open>sliceInsert\<close>, \<^verbatim>\<open>v[ti] = e\<close> and the setter.
\<close>

definition MoveValue ::
  "'a config_scheme \<Rightarrow> json \<Rightarrow> Setter \<Rightarrow> string \<Rightarrow> string \<Rightarrow> json \<Rightarrow> error option \<times> json" where
  "MoveValue p node setter from to d =
     (case node of
        JObject v \<Rightarrow>
          if StrictPathExists p \<and> map_of v from = None then (Some ErrNotExists, d)
          else (case map_of v from of
             None \<Rightarrow> (None, d)
           | Some e \<Rightarrow> (None, setter (JObject (AList.update to e (AList.delete from v)))))
      | JArray v \<Rightarrow>
          (case ParseArrayIndex p (int (length v)) from of
             Inl e \<Rightarrow> (if StrictPathExists p then (Some ErrNotExists, d) else (None, d))
           | Inr fi \<Rightarrow>
          (case ParseArrayIndex p (int (length v)) to of
             Inl e \<Rightarrow> (if StrictPathExists p then (Some ErrNotExists, d) else (None, d))
           | Inr ti \<Rightarrow>
               if fi = ti then (None, d)
               else (case
                   bindE (index_s (slice_of v) fi) (\<lambda>e.
                   bindE (sliceRemove (slice_of v) fi) (\<lambda>v1.
                   bindE (sliceInsert JNull v1 ti e) (\<lambda>v2.
                   assign_s v2 ti e)))
                 of Inl e \<Rightarrow> (Some e, d)
                  | Inr v3 \<Rightarrow> (None, setter (JArray (elems v3))))))
      | _ \<Rightarrow> (Some BadTypeForMove, d))"

section \<open>Deep equality and deep copy\<close>

text \<open>
  \<^verbatim>\<open>reflect.DeepEqual\<close> on document nodes: scalars by \<^verbatim>\<open>==\<close>; two slices when they have the
  same length and equal elements; two maps when they have the same number of keys and
  every key of the first is a key of the second with an equal value.
\<close>

function (sequential) deepEqual :: "json \<Rightarrow> json \<Rightarrow> bool" where
  "deepEqual (JArray xs) (JArray ys) =
     (length xs = length ys \<and> list_all (\<lambda>(x, y). deepEqual x y) (zip xs ys))"
| "deepEqual (JObject a) (JObject b) =
     (length a = length b \<and>
      list_all (\<lambda>(k, x). case map_of b k of None \<Rightarrow> False | Some y \<Rightarrow> deepEqual x y) a)"
| "deepEqual x y = (x = y)"
  by pat_completeness auto
termination
proof (relation "measure (\<lambda>(x, y). size x)")
  show "wf (measure (\<lambda>(x, y). size x))" by simp
next
  fix xs ys :: "json list" and z x y
  assume "z \<in> set (zip xs ys)" and "(x, y) = z"
  then have "x \<in> set xs" by (auto dest: set_zip_leftD)
  then have "size x \<le> size_list size xs" by (simp add: size_list_estimation')
  then show "((x, y), (JArray xs, JArray ys)) \<in> measure (\<lambda>(x, y). size x)" by simp
next
  fix a b :: "(string \<times> json) list" and z k x y
  assume "z \<in> set a" and "(k, x) = z" and "map_of b k = Some y"
  then have "(k, x) \<in> set a" by simp
  then have "size x < Suc (size_list (size_prod (\<lambda>c. 0) size) a)"
    by (induction a) auto
  then show "((x, y), (JObject a, JObject b)) \<in> measure (\<lambda>(x, y). size x)" by simp
qed

text \<open>\<^verbatim>\<open>deepCopy\<close> on values: a slice and a map are built anew from the copies of their members.\<close>

fun deepCopy :: "json \<Rightarrow> json" where
  "deepCopy (JArray v) = JArray (map deepCopy v)"
| "deepCopy (JObject v) = JObject (map (\<lambda>(k, x). (k, deepCopy x)) v)"
| "deepCopy x = x"

section \<open>Operations, handlers and the registry\<close>

definition Operation_check :: "Operation \<Rightarrow> error option" where
  "Operation_check x =
     (case OP x of
        None \<Rightarrow> Some MustContainOp
      | Some _ \<Rightarrow>
     (case Path x of
        None \<Rightarrow> Some MustContainPath
      | Some path \<Rightarrow>
     (case pointer_Check path of
        Some e \<Rightarrow> Some e
      | None \<Rightarrow>
     (case From x of
        None \<Rightarrow> None
      | Some from \<Rightarrow> pointer_Check from))))"

text \<open>
  The \<^verbatim>\<open>Extension\<close> interface, with the optional \<^verbatim>\<open>Descriptor\<close>. \<^verbatim>\<open>Apply\<close> takes the document
  and returns the error, if any, and the document as it has left it.
\<close>

record Extension =
  ext_OP :: string
  ext_Apply :: "config \<Rightarrow> json \<Rightarrow> Operation \<Rightarrow> error option \<times> json"
  ext_Check :: "config \<Rightarrow> Operation \<Rightarrow> error option"
  ext_Description :: "(config \<Rightarrow> Operation \<Rightarrow> string) option"

record Patch = config +
  extensions :: "string \<rightharpoonup> Extension"

definition nil_deref :: "json \<Rightarrow> error option \<times> json" where
  "nil_deref d = (Some (RuntimePanic NilDereference), d)"

subsection \<open>add\<close>

definition add_Apply :: "config \<Rightarrow> json \<Rightarrow> Operation \<Rightarrow> error option \<times> json" where
  "add_Apply p d x =
     (case Path x of None \<Rightarrow> nil_deref d | Some path \<Rightarrow>
     (case Value x of None \<Rightarrow> nil_deref d | Some value \<Rightarrow>
        if IsTheWholeDocument path then (None, value)
        else (case VisitPath p d (pointer_ParentPath path) of
           Inl e \<Rightarrow> (Some (PathNotExists path e), d)
         | Inr (parent, setter) \<Rightarrow> AddValue p parent setter (pointer_LastToken path) value d)))"

definition add_Check :: "config \<Rightarrow> Operation \<Rightarrow> error option" where
  "add_Check p x = (if Value x = None then Some (MustContainValue ''add'') else None)"

definition addExtension :: Extension where
  "addExtension =
     \<lparr>ext_OP = ''add'', ext_Apply = add_Apply, ext_Check = add_Check, ext_Description = None\<rparr>"

subsection \<open>remove\<close>

definition remove_Apply :: "config \<Rightarrow> json \<Rightarrow> Operation \<Rightarrow> error option \<times> json" where
  "remove_Apply p d x =
     (case Path x of None \<Rightarrow> nil_deref d | Some path \<Rightarrow>
        (case VisitPath p d (pointer_ParentPath path) of
           Inl e \<Rightarrow> (Some (PathNotExists path e), d)
         | Inr (parent, setter) \<Rightarrow> RemoveValue p parent setter (pointer_LastToken path) d))"

definition remove_Check :: "config \<Rightarrow> Operation \<Rightarrow> error option" where
  "remove_Check p x = None"

definition removeExtension :: Extension where
  "removeExtension =
     \<lparr>ext_OP = ''remove'', ext_Apply = remove_Apply, ext_Check = remove_Check,
      ext_Description = None\<rparr>"

subsection \<open>replace\<close>

definition replace_Apply :: "config \<Rightarrow> json \<Rightarrow> Operation \<Rightarrow> error option \<times> json" where
  "replace_Apply p d x =
     (case Path x of None \<Rightarrow> nil_deref d | Some path \<Rightarrow>
     (case Value x of None \<Rightarrow> nil_deref d | Some value \<Rightarrow>
        if IsTheWholeDocument path then (None, value)
        else (case VisitPath p d (pointer_ParentPath path) of
           Inl e \<Rightarrow> (Some (PathNotExists path e), d)
         | Inr (parent, setter) \<Rightarrow>
             ReplaceValue p parent setter (pointer_LastToken path) value d)))"

definition replace_Check :: "config \<Rightarrow> Operation \<Rightarrow> error option" where
  "replace_Check p x = (if Value x = None then Some (MustContainValue ''replace'') else None)"

definition replaceExtension :: Extension where
  "replaceExtension =
     \<lparr>ext_OP = ''replace'', ext_Apply = replace_Apply, ext_Check = replace_Check,
      ext_Description = None\<rparr>"

subsection \<open>move\<close>

text \<open>
  When the two pointers do not share their parent, the value is removed first; the walk to
  the parent of \<^verbatim>\<open>path\<close> then starts from the document as the removal has left it, and a
  failure from there on returns that document.
\<close>

definition move_Apply :: "config \<Rightarrow> json \<Rightarrow> Operation \<Rightarrow> error option \<times> json" where
  "move_Apply p d x =
     (case Path x of None \<Rightarrow> nil_deref d | Some path \<Rightarrow>
     (case From x of None \<Rightarrow> nil_deref d | Some from \<Rightarrow>
        (case VisitPath p d (pointer_ParentPath from) of
           Inl e \<Rightarrow> (Some (PathNotExists from e), d)
         | Inr (fromParent, fromSet) \<Rightarrow>
        (case visitPathPart p fromParent (pointer_LastToken from) of
           Inl e \<Rightarrow> (if StrictPathExists p then (Some (PathNotExists from e), d) else (None, d))
         | Inr (value, _) \<Rightarrow>
             if pointer_SameParent path from then
               MoveValue p fromParent fromSet (pointer_LastToken from) (pointer_LastToken path) d
             else
               (case RemoveValue p fromParent fromSet (pointer_LastToken from) d of
                  (Some e, d1) \<Rightarrow> (Some e, d1)
                | (None, d1) \<Rightarrow>
               (case VisitPath p d1 (pointer_ParentPath path) of
                  Inl e \<Rightarrow> (Some (PathNotExists path e), d1)
                | Inr (parent, setter) \<Rightarrow>
                    AddValue p parent setter (pointer_LastToken path) value d1))))))"

definition move_Check :: "config \<Rightarrow> Operation \<Rightarrow> error option" where
  "move_Check p x = (if From x = None then Some (MustContainFrom ''move'') else None)"

definition move_Description :: "config \<Rightarrow> Operation \<Rightarrow> string" where
  "move_Description p x = ''move '' @ the (From x) @ '' to '' @ the (Path x)"

definition moveExtension :: Extension where
  "moveExtension =
     \<lparr>ext_OP = ''move'', ext_Apply = move_Apply, ext_Check = move_Check,
      ext_Description = Some move_Description\<rparr>"

subsection \<open>copy\<close>

definition copy_Apply :: "config \<Rightarrow> json \<Rightarrow> Operation \<Rightarrow> error option \<times> json" where
  "copy_Apply p d x =
     (case Path x of None \<Rightarrow> nil_deref d | Some path \<Rightarrow>
     (case From x of None \<Rightarrow> nil_deref d | Some from \<Rightarrow>
        (case VisitPath p d (pointer_ParentPath path) of
           Inl e \<Rightarrow> (Some (PathNotExists path e), d)
         | Inr (parent, setter) \<Rightarrow>
        (case VisitPath p d (pointer_Path from) of
           Inl e \<Rightarrow> (Some (PathNotExists from e), d)
         | Inr (value, _) \<Rightarrow>
             AddValue p parent setter (pointer_LastToken path) (deepCopy value) d))))"

definition copy_Check :: "config \<Rightarrow> Operation \<Rightarrow> error option" where
  "copy_Check p x = (if From x = None then Some (MustContainFrom ''copy'') else None)"

definition copy_Description :: "config \<Rightarrow> Operation \<Rightarrow> string" where
  "copy_Description p x = ''copy '' @ the (Path x) @ '' from '' @ the (From x)"

definition copyExtension :: Extension where
  "copyExtension =
     \<lparr>ext_OP = ''copy'', ext_Apply = copy_Apply, ext_Check = copy_Check,
      ext_Description = Some copy_Description\<rparr>"

subsection \<open>test\<close>

definition test_Apply :: "config \<Rightarrow> json \<Rightarrow> Operation \<Rightarrow> error option \<times> json" where
  "test_Apply p d x =
     (case Path x of None \<Rightarrow> nil_deref d | Some path \<Rightarrow>
     (case Value x of None \<Rightarrow> nil_deref d | Some expect \<Rightarrow>
        (case VisitPath p d (pointer_Path path) of
           Inl e \<Rightarrow>
             (if StrictPathExists p then (Some (PathNotExists path e), d) else (Some ErrStop, d))
         | Inr (value, _) \<Rightarrow>
             if deepEqual value expect then (None, d) else (Some ErrStop, d))))"

definition test_Check :: "config \<Rightarrow> Operation \<Rightarrow> error option" where
  "test_Check p x = (if Value x = None then Some (MustContainValue ''test'') else None)"

definition testExtension :: Extension where
  "testExtension =
     \<lparr>ext_OP = ''test'', ext_Apply = test_Apply, ext_Check = test_Check,
      ext_Description = None\<rparr>"

section \<open>The orchestrator\<close>

text \<open>\<^verbatim>\<open>New\<close>: strict by default, the six standard handlers, then the options in order.\<close>

definition standard_extensions :: "string \<rightharpoonup> Extension" where
  "standard_extensions =
     [''add'' \<mapsto> addExtension, ''remove'' \<mapsto> removeExtension, ''replace'' \<mapsto> replaceExtension,
      ''move'' \<mapsto> moveExtension, ''copy'' \<mapsto> copyExtension, ''test'' \<mapsto> testExtension]"

definition WithStrictPathExists :: "bool \<Rightarrow> Patch \<Rightarrow> Patch" where
  "WithStrictPathExists on p = p\<lparr>StrictPathExists := on\<rparr>"

definition WithSupportNegativeArrayIndex :: "bool \<Rightarrow> Patch \<Rightarrow> Patch" where
  "WithSupportNegativeArrayIndex on p = p\<lparr>SupportNegativeArrayIndex := on\<rparr>"

definition WithExtension :: "Extension \<Rightarrow> Patch \<Rightarrow> Patch" where
  "WithExtension ext p = p\<lparr>extensions := (extensions p)(ext_OP ext \<mapsto> ext)\<rparr>"

definition New :: "(Patch \<Rightarrow> Patch) list \<Rightarrow> Patch" where
  "New options =
     fold (\<lambda>option p. option p) options
       \<lparr>StrictPathExists = True, SupportNegativeArrayIndex = False, JSONPrefix = [],
        JSONIndent = [], JSONEscapeHTML = False, extensions = standard_extensions\<rparr>"

text \<open>\<^verbatim>\<open>Check\<close>: the first operation that fails stops the loop.\<close>

fun Check :: "Patch \<Rightarrow> Operation list \<Rightarrow> error option" where
  "Check p [] = None"
| "Check p (x # xs) =
     (case Operation_check x of
        Some e \<Rightarrow> Some e
      | None \<Rightarrow>
     (case OP x of
        None \<Rightarrow> Some (RuntimePanic NilDereference)
      | Some name \<Rightarrow>
     (case extensions p name of
        None \<Rightarrow> Some (UnknownOperation name)
      | Some e \<Rightarrow>
     (case ext_Check e (config.truncate p) x of
        Some err \<Rightarrow> Some (CheckFailed err x)
      | None \<Rightarrow> Check p xs))))"

text \<open>The description of an operation in an error message.\<close>

definition describe :: "Patch \<Rightarrow> Extension \<Rightarrow> Operation \<Rightarrow> string" where
  "describe p ext x =
     (case ext_Description ext of
        Some f \<Rightarrow> f (config.truncate p) x
      | None \<Rightarrow> the (OP x) @ '' '' @ the (Path x))"

text \<open>
  The loop of \<^verbatim>\<open>applyAny\<close>. A panic of a handler unwinds; a missing path is skipped when
  the patch is not strict; any other error is wrapped, as ``operation stopped'' when it is
  \<^verbatim>\<open>ErrStop\<close> and as ``operation failed'' otherwise.
\<close>

fun apply_loop :: "Patch \<Rightarrow> Operation list \<Rightarrow> json \<Rightarrow> error option \<times> json" where
  "apply_loop p [] d = (None, d)"
| "apply_loop p (x # xs) d =
     (case OP x of None \<Rightarrow> nil_deref d | Some name \<Rightarrow>
     (case extensions p name of None \<Rightarrow> nil_deref d | Some ext \<Rightarrow>
     (case ext_Apply ext (config.truncate p) d x of
        (None, d') \<Rightarrow> apply_loop p xs d'
      | (Some (RuntimePanic k), d') \<Rightarrow> (Some (RuntimePanic k), d')
      | (Some err, d') \<Rightarrow>
          if \<not> StrictPathExists p \<and> errors_Is err ErrNotExists then apply_loop p xs d'
          else if errors_Is err ErrStop then (Some (OperationStopped (describe p ext x) err), d')
          else (Some (OperationFailed (describe p ext x) err), d'))))"

definition applyAny :: "Patch \<Rightarrow> json \<Rightarrow> Operation list \<Rightarrow> error option \<times> json" where
  "applyAny p d ops =
     (case Check p ops of
        Some err \<Rightarrow> (Some err, d)
      | None \<Rightarrow> apply_loop p ops d)"

text \<open>\<^verbatim>\<open>ApplyAny\<close>: the root has to be an object or an array.\<close>

definition ApplyAny :: "Patch \<Rightarrow> json \<Rightarrow> Operation list \<Rightarrow> error option \<times> json" where
  "ApplyAny p d ops =
     (case d of
        JObject _ \<Rightarrow> applyAny p d ops
      | JArray _ \<Rightarrow> applyAny p d ops
      | _ \<Rightarrow> (Some BadTypeForApply, d))"

section \<open>Notions used in the statements\<close>

text \<open>A scalar node: anything but an array or an object.\<close>

definition is_scalar :: "json \<Rightarrow> bool" where
  "is_scalar x = (case x of JArray _ \<Rightarrow> False | JObject _ \<Rightarrow> False | _ \<Rightarrow> True)"



text \<open>
  An operation passes static validation when \<^verbatim>\<open>op\<close> and \<^verbatim>\<open>path\<close> are present, the pointers
  are well formed, the operation is registered and its handler's check passes.
\<close>

definition statically_valid :: "Patch \<Rightarrow> Operation \<Rightarrow> bool" where
  "statically_valid p x =
     (case OP x of None \<Rightarrow> False | Some name \<Rightarrow>
      case Path x of None \<Rightarrow> False | Some path \<Rightarrow>
        pointer_Check path = None \<and>
        (case From x of None \<Rightarrow> True | Some from \<Rightarrow> pointer_Check from = None) \<and>
        (case extensions p name of None \<Rightarrow> False
         | Some ext \<Rightarrow> ext_Check ext (config.truncate p) x = None))"

text \<open>The errors a walk of the navigator can return.\<close>

definition navigator_error :: "error \<Rightarrow> bool" where
  "navigator_error e =
     (case e of
        ErrNotExists \<Rightarrow> True
      | CannotVisitType \<Rightarrow> True
      | BadArrayIndex _ \<Rightarrow> True
      | AtoiSyntax _ \<Rightarrow> True
      | AtoiRange _ \<Rightarrow> True
      | ArrayIndexOutOfRange _ _ \<Rightarrow> True
      | _ \<Rightarrow> False)"

text \<open>The operation \<^verbatim>\<open>{"op":"test","path":P,"value":V}\<close>.\<close>

definition test_op :: "string \<Rightarrow> json \<Rightarrow> Operation" where
  "test_op P V = \<lparr>OP = Some ''test'', Path = Some P, Value = Some V, From = None\<rparr>"

text \<open>
  Sample inputs: the document \<^verbatim>\<open>{"a":[1,2,3]}\<close> and the operations
  \<^verbatim>\<open>{"op":"move","from":"/a/0","path":"/a/-"}\<close>, \<^verbatim>\<open>{"op":"remove","path":"a"}\<close> and
  \<^verbatim>\<open>{"op":"add","path":"/b","value":null}\<close>.
\<close>

definition doc_a123 :: json where
  "doc_a123 = JObject [(''a'', JArray [JNumber 1, JNumber 2, JNumber 3])]"


definition bad_pointer_op :: Operation where
  "bad_pointer_op = \<lparr>OP = Some ''remove'', Path = Some ''a'', Value = None, From = None\<rparr>"

definition add_b :: Operation where
  "add_b = \<lparr>OP = Some ''add'', Path = Some ''/b'', Value = Some JNull, From = None\<rparr>"


section \<open>Slices: what the two helpers compute\<close>

lemma elems_slice_of [simp]: "elems (slice_of xs) = xs"
  by (simp add: elems_def slice_of_def)

lemma wf_slice_of [simp]: "wf_slice (slice_of xs)"
  by (simp add: wf_slice_def slice_of_def)

lemma length_elems [simp]: "wf_slice s \<Longrightarrow> length (elems s) = len_s s"
  by (auto simp: elems_def wf_slice_def)

lemma slice_split:
  assumes "wf_slice s" and "k < len_s s"
  obtains A P x Q C where "s = Slice (A @ P @ x # Q @ C) (length A) (length P + Suc (length Q))"
    and "length P = k" and "elems s = P @ x # Q"
proof -
  let ?A = "take (off s) (buf s)"
  let ?B = "take (len_s s) (drop (off s) (buf s))"
  let ?C = "drop (len_s s) (drop (off s) (buf s))"
  have b: "buf s = ?A @ ?B @ ?C" by (simp only: append_take_drop_id)
  have lA: "length ?A = off s" and lB: "length ?B = len_s s"
    using assms by (simp_all add: wf_slice_def)
  have kB: "k < length ?B" using assms lB by simp
  have B: "?B = take k ?B @ (?B ! k) # drop (Suc k) ?B"
    using kB by (rule id_take_nth_drop)
  have lP: "length (take k ?B) = k" using kB by simp
  have lQ: "length (drop (Suc k) ?B) = len_s s - Suc k" using lB by simp
  have "s = Slice (buf s) (off s) (len_s s)" by simp
  also have "buf s = ?A @ take k ?B @ (?B ! k) # drop (Suc k) ?B @ ?C"
    using b B by (metis append_Cons append_assoc)
  finally have "s = Slice (?A @ take k ?B @ (?B ! k) # drop (Suc k) ?B @ ?C)
      (length ?A) (length (take k ?B) + Suc (length (drop (Suc k) ?B)))"
    using lA lP lQ assms(2) by simp
  moreover have "elems s = take k ?B @ (?B ! k) # drop (Suc k) ?B"
    using B by (simp add: elems_def)
  ultimately show ?thesis using that lP by blast
qed

lemma sliceRemove_explicit:
  "sliceRemove (Slice (A @ P @ x # Q @ C) (length A) (length P + Suc (length Q))) (int (length P))
     = Inr (Slice (A @ P @ Q @ drop (length Q) (x # Q @ C)) (length A) (length P + length Q))"
  by (simp add: sliceRemove_def slice_to_def slice_from_def reslice_def bindE_def cap_s_def
        append_s_def elems_def nat_add_distrib)

lemma slice_split_le:
  assumes "wf_slice s" and "k \<le> len_s s"
  obtains A P Q C where "s = Slice (A @ P @ Q @ C) (length A) (length P + length Q)"
    and "length P = k" and "elems s = P @ Q"
proof -
  let ?A = "take (off s) (buf s)"
  let ?B = "take (len_s s) (drop (off s) (buf s))"
  let ?C = "drop (len_s s) (drop (off s) (buf s))"
  have b: "buf s = ?A @ ?B @ ?C" by (simp only: append_take_drop_id)
  have lA: "length ?A = off s" and lB: "length ?B = len_s s"
    using assms by (simp_all add: wf_slice_def)
  have B: "?B = take k ?B @ drop k ?B" by (simp only: append_take_drop_id)
  have lP: "length (take k ?B) = k" using assms lB by simp
  have lQ: "length (drop k ?B) = len_s s - k" using lB by simp
  have "s = Slice (buf s) (off s) (len_s s)" by simp
  also have "buf s = ?A @ take k ?B @ drop k ?B @ ?C"
    using b B by (metis append_assoc)
  finally have "s = Slice (?A @ take k ?B @ drop k ?B @ ?C)
      (length ?A) (length (take k ?B) + length (drop k ?B))"
    using lA lP lQ assms(2) by simp
  moreover have "elems s = take k ?B @ drop k ?B"
    by (simp only: elems_def append_take_drop_id)
  ultimately show ?thesis using that lP by blast
qed

lemma sliceInsert_explicit:
  "\<exists>r. sliceInsert z (Slice (A @ P @ Q @ C) (length A) (length P + length Q)) (int (length P)) v
        = Inr r \<and> wf_slice r \<and> elems r = P @ v # Q"
proof (cases "Q = []")
  case True
  then show ?thesis
    by (cases C) (simp_all add: sliceInsert_def append_s_def cap_s_def wf_slice_def elems_def)
next
  case False
  let ?s = "Slice (A @ P @ Q @ C) (length A) (length P + length Q)"
  have mk: "make_s z (len_s ?s + 1)
      = Slice (replicate (length P) z @ z # replicate (length Q) z) 0 (length P + Suc (length Q))"
    by (simp add: make_s_def replicate_add replicate_append_same)
  have ne: "int (length P) \<noteq> int (len_s ?s)" using False by simp
  show ?thesis
    unfolding sliceInsert_def Let_def mk if_not_P [OF ne]
    by (simp add: slice_to_def slice_from_def reslice_def bindE_def
          cap_s_def assign_s_def copy_s_def elems_def wf_slice_def nat_add_distrib
          list_update_append)
qed

lemma len_slice_of [simp]: "len_s (slice_of xs) = length xs"
  by (simp add: slice_of_def)

lemma cap_slice_of [simp]: "cap_s (slice_of xs) = length xs"
  by (simp add: slice_of_def cap_s_def)

lemma sliceRemove_ok:
  assumes "wf_slice s" and "k < len_s s"
  shows "\<exists>r. sliceRemove s (int k) = Inr r \<and> wf_slice r \<and> cap_s r = cap_s s
           \<and> len_s r = len_s s - 1 \<and> elems r = take k (elems s) @ drop (Suc k) (elems s)"
proof -
  obtain A P x Q C where s: "s = Slice (A @ P @ x # Q @ C) (length A) (length P + Suc (length Q))"
    and k: "length P = k" and e: "elems s = P @ x # Q"
    using slice_split [OF assms] by blast
  have "sliceRemove s (int k)
      = Inr (Slice (A @ P @ Q @ drop (length Q) (x # Q @ C)) (length A) (length P + length Q))"
    unfolding s k [symmetric] by (rule sliceRemove_explicit)
  moreover have "take k (elems s) @ drop (Suc k) (elems s) = P @ Q"
    using e k by simp
  ultimately show ?thesis
    using s by (simp add: wf_slice_def cap_s_def elems_def)
qed

lemma sliceInsert_ok:
  assumes "wf_slice s" and "k \<le> len_s s"
  shows "\<exists>r. sliceInsert z s (int k) v = Inr r \<and> wf_slice r
           \<and> elems r = take k (elems s) @ v # drop k (elems s)"
proof -
  obtain A P Q C where s: "s = Slice (A @ P @ Q @ C) (length A) (length P + length Q)"
    and k: "length P = k" and e: "elems s = P @ Q"
    using slice_split_le [OF assms] by blast
  have "take k (elems s) @ v # drop k (elems s) = P @ v # Q"
    using e k by simp
  then show ?thesis
    unfolding s k [symmetric] using sliceInsert_explicit [of z A P Q C v] s by simp
qed

lemma sliceRemove_panic:
  assumes "wf_slice s" and "i < 0 \<or> int (len_s s) \<le> i"
  shows "sliceRemove s i = Inl (RuntimePanic SliceBoundsOutOfRange)"
  using assms
  by (auto simp: sliceRemove_def slice_to_def slice_from_def reslice_def bindE_def cap_s_def
        wf_slice_def)




text \<open>
  Claim C9. For a slice \<open>s\<close>, a value \<open>v\<close> and an index \<open>0 \<le> i \<le> len(s)\<close>, \<^verbatim>\<open>sliceInsert\<close>
  returns a slice, \<^verbatim>\<open>sliceRemove\<close> at the same index returns a slice from that one, and the
  elements of the latter are the elements of \<open>s\<close>: neither call panics and the sequence is
  restored, whatever spare capacity \<open>s\<close> has.
\<close>

theorem sliceInsert_sliceRemove:
  assumes "wf_slice s" and "0 \<le> i" and "i \<le> int (len_s s)"
  shows "\<exists>r r'. sliceInsert z s i v = Inr r \<and> sliceRemove r i = Inr r' \<and> elems r' = elems s"
proof -
  obtain k where k: "i = int k" "k \<le> len_s s"
    using assms(2,3) by (metis nat_le_iff nat_0_le)
  obtain r where r: "sliceInsert z s (int k) v = Inr r" "wf_slice r"
    "elems r = take k (elems s) @ v # drop k (elems s)"
    using sliceInsert_ok [OF assms(1) k(2)] by blast
  have lr: "len_s r = Suc (len_s s)"
    using length_elems [OF r(2)] length_elems [OF assms(1)] r(3) k(2) by simp
  then have "k < len_s r" using k(2) by simp
  then obtain r' where r': "sliceRemove r (int k) = Inr r'"
    "elems r' = take k (elems r) @ drop (Suc k) (elems r)"
    using sliceRemove_ok [OF r(2)] by blast
  have "length (take k (elems s)) = k"
    using k(2) length_elems [OF assms(1)] by simp
  then have "elems r' = elems s" using r'(2) r(3) by simp
  with r(1) r'(1) k(1) show ?thesis by simp
qed

theorem sliceInsert_sliceRemove_witness:
  "wf_slice (slice_of [JNumber 1, JNumber 2, JNumber 3]) \<and>
   (\<exists>r r'. sliceInsert JNull (slice_of [JNumber 1, JNumber 2, JNumber 3]) 1 (JNumber 4) = Inr r
      \<and> sliceRemove r 1 = Inr r' \<and> elems r' = [JNumber 1, JNumber 2, JNumber 3])"
  using sliceInsert_sliceRemove [of "slice_of [JNumber 1, JNumber 2, JNumber 3]" 1 JNull "JNumber 4"]
  by simp

section \<open>Unescaping\<close>

lemma Replace_Nil [simp]: "Replace ps [] = []"
  by (simp add: Replace.simps)

lemma unescapePath_Nil [simp]: "unescapePath [] = []" 
  by (simp add: unescapePath_def)

lemma unescapePath_tilde1 [simp]: "unescapePath (CHR ''~'' # CHR ''1'' # s) = CHR ''/'' # unescapePath s"
  by (simp add: unescapePath_def unescapeReplace_def Replace.simps [of _ "_ # _"])

lemma unescapePath_tilde0 [simp]: "unescapePath (CHR ''~'' # CHR ''0'' # s) = CHR ''~'' # unescapePath s"
  by (simp add: unescapePath_def unescapeReplace_def Replace.simps [of _ "_ # _"])

lemma unescapePath_other [simp]: "c \<noteq> CHR ''~'' \<Longrightarrow> unescapePath (c # s) = c # unescapePath s"
  by (cases s) (simp_all add: unescapePath_def unescapeReplace_def Replace.simps [of _ "_ # _"])

lemma unescapePath_tilde_other [simp]:
  "d \<noteq> CHR ''1'' \<Longrightarrow> d \<noteq> CHR ''0'' \<Longrightarrow> unescapePath (CHR ''~'' # d # s) = CHR ''~'' # unescapePath (d # s)"
  by (simp add: unescapePath_def unescapeReplace_def Replace.simps [of _ "CHR ''~'' # _"])

lemma unescapePath_tilde_end [simp]: "unescapePath [CHR ''~''] = [CHR ''~'']"
  by (simp add: unescapePath_def unescapeReplace_def Replace.simps [of _ "_ # _"])

lemma ReplaceAll_Nil [simp]: "ReplaceAll old new [] = []"
  by (simp add: ReplaceAll_def)

lemma ReplaceAll_hit [simp]:
  "ReplaceAll [a, b] new (a # b # s) = new @ ReplaceAll [a, b] new s"
  by (simp add: ReplaceAll_def Replace.simps [of _ "_ # _"])

lemma ReplaceAll_miss1 [simp]: "c \<noteq> a \<Longrightarrow> ReplaceAll [a, b] new (c # s) = c # ReplaceAll [a, b] new s"
  by (cases s) (simp_all add: ReplaceAll_def Replace.simps [of _ "_ # _"])

lemma ReplaceAll_miss2 [simp]:
  "d \<noteq> b \<Longrightarrow> ReplaceAll [a, b] new (c # d # s) = c # ReplaceAll [a, b] new (d # s)"
  by (simp add: ReplaceAll_def Replace.simps [of _ "c # _"])

lemma ReplaceAll_single [simp]: "ReplaceAll [a, b] new [c] = [c]"
  by (simp add: ReplaceAll_def Replace.simps [of _ "_ # _"])

text \<open>The first pass never puts a \<^verbatim>\<open>0\<close> in front that was not there.\<close>

lemma first_pass_head:
  "d \<noteq> CHR ''0'' \<Longrightarrow> \<exists>d' t. ReplaceAll ''~1'' ''/'' (d # s) = d' # t \<and> d' \<noteq> CHR ''0''"
proof (cases "d = CHR ''~''")
  case True
  assume "d \<noteq> CHR ''0''"
  show ?thesis
  proof (cases s)
    case Nil
    with True show ?thesis by simp
  next
    case (Cons e s')
    with True show ?thesis by (cases "e = CHR ''1''") simp_all
  qed
next
  case False
  assume "d \<noteq> CHR ''0''"
  with False show ?thesis by simp
qed

lemma unescapePath_two_passes: "unescapePath s = unescape_two_passes s"
proof (induction s rule: unescape_scheme.induct)
  case (1 c d s)
  show ?case
  proof (cases "c = CHR ''~''")
    case False
    with 1 show ?thesis by (simp add: unescape_two_passes_def)
  next
    case c: True
    consider "d = CHR ''1''" | "d = CHR ''0''" | "d \<noteq> CHR ''1''" "d \<noteq> CHR ''0''" by blast
    then show ?thesis
    proof cases
      case 1
      with c "1.IH" show ?thesis by (simp add: unescape_two_passes_def)
    next
      case 2
      with c "1.IH" show ?thesis by (simp add: unescape_two_passes_def)
    next
      case 3
      obtain d' t where h: "ReplaceAll ''~1'' ''/'' (d # s) = d' # t" "d' \<noteq> CHR ''0''"
        using first_pass_head [OF 3(2)] by blast
      from c 3 "1.IH" h show ?thesis by (simp add: unescape_two_passes_def)
    qed
  qed
next
  case (2 c)
  show ?case by (cases "c = CHR ''~''") (simp_all add: unescape_two_passes_def)
next
  case 3
  show ?case by (simp add: unescape_two_passes_def)
qed

lemma unescape_escape: "unescapePath (escapePath s) = s"
  by (induction s) (simp_all add: escapePath_def)

text \<open>
  Claim C8. Unescaping a segment is the same as replacing every \<^verbatim>\<open>~1\<close> by \<^verbatim>\<open>/\<close> in a first
  pass and every \<^verbatim>\<open>~0\<close> by \<^verbatim>\<open>~\<close> in a second one; \<^verbatim>\<open>~01\<close> becomes \<^verbatim>\<open>~1\<close> and not \<^verbatim>\<open>/\<close>;
  and unescaping the escaped form of any string gives the string back. (The function is
  total: its termination is proved where it is defined.)
\<close>

theorem unescapePath_spec:
  "unescapePath s = unescape_two_passes s
   \<and> unescapePath ''~01'' = ''~1'' \<and> unescapePath ''~01'' \<noteq> ''/''
   \<and> unescapePath (escapePath t) = t"
  using unescapePath_two_passes [of s] unescape_escape [of t] by simp

theorem unescapePath_spec_witness:
  "unescapePath ''a~1b~0~01'' = unescape_two_passes ''a~1b~0~01''
   \<and> unescapePath ''~01'' = ''~1'' \<and> unescapePath ''~01'' \<noteq> ''/''
   \<and> unescapePath (escapePath ''~/~1'') = ''~/~1''"
  using unescapePath_spec [of "''a~1b~0~01''" "''~/~1''"] by simp

section \<open>The index grammar\<close>

lemma MatchString_Never [simp]: "MatchString Never s = False"
  by (induction s) simp_all

lemma MatchString_Eps [simp]: "MatchString Eps s = (s = [])"
  by (cases s) simp_all

lemma MatchString_Alt [simp]:
  "MatchString (Alt r1 r2) s = (MatchString r1 s \<or> MatchString r2 s)"
  by (induction s arbitrary: r1 r2) simp_all

lemma MatchString_Lit [simp]: "MatchString (Lit a) s = (s = [a])"
  by (cases s) auto

lemma MatchString_Seq_Never [simp]: "MatchString (Seq Never r) s = False"
  by (induction s) simp_all

lemma MatchString_Seq_Eps [simp]: "MatchString (Seq Eps r) s = MatchString r s"
  by (cases s) simp_all

lemma MatchString_Seq_Alt [simp]:
  "MatchString (Seq (Alt a b) r) s = (MatchString (Seq a r) s \<or> MatchString (Seq b r) s)"
  by (induction s arbitrary: a b r) auto

lemma MatchString_digits [simp]:
  "MatchString (Star (Range CHR ''0'' CHR ''9'')) s = list_all is_digit s"
  by (induction s) (simp_all add: is_digit_def)

lemma MatchString_indexRE: "MatchString indexRE s = is_index s"
  by (cases s) (auto simp: indexRE_def is_index_def)

lemma MatchString_negativeIndexRE:
  "MatchString negativeIndexRE s = (is_index s \<or> (case s of [] \<Rightarrow> False | c # t \<Rightarrow> c = CHR ''-'' \<and> is_index t))"
  by (cases s) (auto simp: negativeIndexRE_def MatchString_indexRE [symmetric] indexRE_def)

declare MatchString.simps [simp del]

lemma foldl_decimal_nonneg:
  "0 \<le> n \<Longrightarrow> list_all is_digit s \<Longrightarrow> 0 \<le> foldl (\<lambda>n c. n * 10 + digit_val c) n s"
proof (induction s arbitrary: n)
  case Nil
  then show ?case by simp
next
  case (Cons c s)
  from Cons.prems have "0 \<le> digit_val c"
    by (simp add: is_digit_def in_range_def digit_val_def)
  with Cons.prems have "0 \<le> n * 10 + digit_val c" by simp
  with Cons show ?case by simp
qed

lemma decimal_nonneg: "list_all is_digit s \<Longrightarrow> 0 \<le> decimal s"
  unfolding decimal_def by (rule foldl_decimal_nonneg) simp_all

lemma is_index_digits: "is_index s \<Longrightarrow> s \<noteq> [] \<and> list_all is_digit s \<and> hd s \<noteq> CHR ''-'' \<and> hd s \<noteq> CHR ''+''"
  by (cases s) (auto simp: is_index_def is_digit_def in_range_def)

lemma Atoi_index:
  assumes "is_index s"
  shows "Atoi s = (if maxInt < decimal s then Inl (AtoiRange s) else Inr (decimal s))"
    and "token_value s = decimal s" and "0 \<le> decimal s"
proof -
  from is_index_digits [OF assms] obtain c t where s: "s = c # t" "list_all is_digit s"
    "c \<noteq> CHR ''-''" "c \<noteq> CHR ''+''" by (cases s) auto
  have nn: "0 \<le> decimal s" using s(2) by (rule decimal_nonneg)
  then show "0 \<le> decimal s" .
  show "token_value s = decimal s" using s by (simp add: token_value_def)
  have "minInt \<le> decimal s" using nn by (simp add: minInt_def)
  then show "Atoi s = (if maxInt < decimal s then Inl (AtoiRange s) else Inr (decimal s))"
    using s by (auto simp: Atoi_def)
qed

lemma Atoi_minus_index:
  assumes "is_index t"
  shows "Atoi (CHR ''-'' # t) =
           (if - decimal t < minInt then Inl (AtoiRange (CHR ''-'' # t)) else Inr (- decimal t))"
    and "token_value (CHR ''-'' # t) = - decimal t" and "0 \<le> decimal t"
proof -
  from is_index_digits [OF assms] have t: "t \<noteq> []" "list_all is_digit t" by simp_all
  show nn: "0 \<le> decimal t" using t(2) by (rule decimal_nonneg)
  show "token_value (CHR ''-'' # t) = - decimal t" by (simp add: token_value_def)
  have "- decimal t \<le> maxInt" using nn by (simp add: maxInt_def)
  then show "Atoi (CHR ''-'' # t) =
           (if - decimal t < minInt then Inl (AtoiRange (CHR ''-'' # t)) else Inr (- decimal t))"
    using t by (auto simp: Atoi_def)
qed

lemma add_int_exact:
  "0 \<le> a \<Longrightarrow> a \<le> maxInt \<Longrightarrow> minInt \<le> b \<Longrightarrow> b < 0 \<Longrightarrow> add_int a b = a + b"
  by (simp add: add_int_def maxInt_def minInt_def)

lemma ParseArrayIndex_dash: "0 \<le> sz \<Longrightarrow> ParseArrayIndex p sz ''-'' = Inr sz"
  by (simp add: ParseArrayIndex_def)

lemma ParseArrayIndex_plain:
  assumes "\<not> SupportNegativeArrayIndex p" and "s \<noteq> ''-''"
  shows "ParseArrayIndex p sz s =
     (if \<not> MatchString indexRE s then Inl (BadArrayIndex s)
      else if maxInt < token_value s then Inl (AtoiRange s)
      else if token_value s \<le> sz then Inr (token_value s)
      else Inl (ArrayIndexOutOfRange sz s))"
proof (cases "is_index s")
  case False
  with assms show ?thesis by (simp add: ParseArrayIndex_def MatchString_indexRE)
next
  case True
  note a = Atoi_index [OF True]
  from assms True a(3) show ?thesis
    by (simp add: ParseArrayIndex_def MatchString_indexRE a(1,2))
qed

lemma ParseArrayIndex_negative:
  assumes "SupportNegativeArrayIndex p" and "s \<noteq> ''-''" and "0 \<le> sz" and "sz \<le> maxInt"
  shows "ParseArrayIndex p sz s =
     (if \<not> MatchString negativeIndexRE s then Inl (BadArrayIndex s)
      else if \<not> fits_int s then Inl (AtoiRange s)
      else if 0 \<le> resolved p sz s \<and> resolved p sz s \<le> sz then Inr (resolved p sz s)
      else Inl (ArrayIndexOutOfRange sz s))"
proof -
  consider (plain) "is_index s" | (minus) t where "s = CHR ''-'' # t" "is_index t"
    | (bad) "\<not> MatchString negativeIndexRE s"
    by (cases s) (auto simp: MatchString_negativeIndexRE)
  then show ?thesis
  proof cases
    case plain
    note a = Atoi_index [OF plain]
    have m: "MatchString negativeIndexRE s" using plain by (simp add: MatchString_negativeIndexRE)
    have "minInt \<le> decimal s" using a(3) by (simp add: minInt_def)
    with assms a(3) m show ?thesis
      by (simp add: ParseArrayIndex_def a(1,2) fits_int_def resolved_def)
  next
    case minus
    note a = Atoi_minus_index [OF minus(2)]
    have m: "MatchString negativeIndexRE s" using minus by (simp add: MatchString_negativeIndexRE)
    have mx: "- decimal t \<le> maxInt" using a(3) by (simp add: maxInt_def)
    show ?thesis
    proof (cases "- decimal t < minInt")
      case True
      with assms m mx show ?thesis
        unfolding minus(1) using minus(1) by (simp add: ParseArrayIndex_def a(1,2) fits_int_def)
    next
      case False
      show ?thesis
      proof (cases "decimal t = 0")
        case True
        with assms m False mx show ?thesis
          unfolding minus(1) using minus(1) 
          by (simp add: ParseArrayIndex_def a(1,2) fits_int_def resolved_def)
      next
        case nz: False
        then have neg: "- decimal t < 0" using a(3) by simp
        have "add_int sz (- decimal t) = sz + - decimal t"
          using assms(3,4) False neg by (intro add_int_exact) simp_all
        with assms m False mx neg show ?thesis
          unfolding minus(1) using minus(1)
          by (simp add: ParseArrayIndex_def a(1,2) fits_int_def resolved_def Let_def)
      qed
    qed
  next
    case bad
    with assms show ?thesis by (simp add: ParseArrayIndex_def)
  qed
qed

text \<open>
  Claim C3, as amended. For an array length \<open>sz\<close> (a non-negative machine \<^verbatim>\<open>int\<close>) and a
  token \<open>s\<close>: a token the active pattern does not accept fails as a bad array index; an
  accepted token whose integer does not fit the machine \<^verbatim>\<open>int\<close> fails with the range error
  of \<^verbatim>\<open>strconv.Atoi\<close>; any other token resolves (\<^verbatim>\<open>-\<close> to \<open>sz\<close>, a negative number \<open>i\<close> to
  \<open>sz + i\<close>) and is returned if and only if \<open>0 \<le> i \<le> sz\<close>, failing with the
  index-out-of-range error otherwise. Over all tokens, an index is returned exactly for the
  accepted tokens that resolve into \<open>[0, sz]\<close>.
\<close>

theorem ParseArrayIndex_spec:
  assumes "0 \<le> sz" and "sz \<le> maxInt"
  shows "ParseArrayIndex p sz s =
           (if \<not> accepted p s then Inl (BadArrayIndex s)
            else if s \<noteq> ''-'' \<and> \<not> fits_int s then Inl (AtoiRange s)
            else if 0 \<le> resolved p sz s \<and> resolved p sz s \<le> sz then Inr (resolved p sz s)
            else Inl (ArrayIndexOutOfRange sz s))
         \<and> ((\<exists>i. ParseArrayIndex p sz s = Inr i)
              = (accepted p s \<and> 0 \<le> resolved p sz s \<and> resolved p sz s \<le> sz))"
proof (cases "s = ''-''")
  case True
  with assms show ?thesis
    by (simp add: ParseArrayIndex_dash accepted_def resolved_def)
next
  case dash: False
  show ?thesis
  proof (cases "SupportNegativeArrayIndex p")
    case True
    note eq = ParseArrayIndex_negative [OF True dash assms]
    have "\<not> fits_int s \<Longrightarrow> \<not> (0 \<le> resolved p sz s \<and> resolved p sz s \<le> sz)"
      using assms True dash by (auto simp: fits_int_def resolved_def minInt_def maxInt_def)
    with True dash show ?thesis unfolding eq by (auto simp: accepted_def)
  next
    case False
    note eq = ParseArrayIndex_plain [OF False dash, of sz]
    have t: "MatchString indexRE s \<Longrightarrow> 0 \<le> token_value s"
      using Atoi_index(2,3) [of s] by (simp add: MatchString_indexRE)
    have r: "resolved p sz s = token_value s" using False dash by (simp add: resolved_def)
    from False dash t assms show ?thesis
      unfolding eq r by (auto simp: accepted_def fits_int_def minInt_def)
  qed
qed

theorem ParseArrayIndex_spec_witness:
  "(0::int) \<le> 3 \<and> 3 \<le> maxInt \<and> ParseArrayIndex (New []) 3 ''2'' = Inr 2
     \<and> ParseArrayIndex (New [WithSupportNegativeArrayIndex True]) 3 ''-1'' = Inr 2"
  using ParseArrayIndex_spec [of 3 "New []" "''2''"]
    ParseArrayIndex_spec [of 3 "New [WithSupportNegativeArrayIndex True]" "''-1''"]
  by (simp add: New_def WithSupportNegativeArrayIndex_def accepted_def resolved_def fits_int_def
        token_value_def decimal_def digit_val_def maxInt_def minInt_def MatchString_indexRE
        MatchString_negativeIndexRE is_index_def in_range_def is_digit_def)

text \<open>
  A token of nineteen digits beyond the largest \<^verbatim>\<open>int\<close> matches the pattern, and fails with
  the range error of \<^verbatim>\<open>strconv.Atoi\<close>, not with the index-out-of-range error.
\<close>

theorem ParseArrayIndex_huge_token:
  "MatchString indexRE ''9223372036854775808'' \<and>
   ParseArrayIndex (New []) 3 ''9223372036854775808'' = Inl (AtoiRange ''9223372036854775808'') \<and>
   ParseArrayIndex (New []) 3 ''9223372036854775808''
     \<noteq> Inl (ArrayIndexOutOfRange 3 ''9223372036854775808'')"
  by (simp add: ParseArrayIndex_def New_def MatchString_indexRE is_index_def in_range_def
        is_digit_def Atoi_def decimal_def digit_val_def maxInt_def minInt_def)

lemma ParseArrayIndex_range:
  assumes "ParseArrayIndex p sz s = Inr i" and "0 \<le> sz"
  shows "0 \<le> i \<and> i \<le> sz"
proof (cases "s = ''-''")
  case True
  with assms show ?thesis by (simp add: ParseArrayIndex_def split: if_splits)
next
  case dash: False
  show ?thesis
  proof (cases "SupportNegativeArrayIndex p")
    case True
    with assms dash show ?thesis
      by (auto simp: ParseArrayIndex_def Let_def split: if_splits sum.splits)
  next
    case False
    from assms show ?thesis
      unfolding ParseArrayIndex_plain [OF False dash]
      using Atoi_index(2,3) [of s] by (auto simp: MatchString_indexRE split: if_splits)
  qed
qed

section \<open>The navigator\<close>

lemma visit_loop_setter:
  "visit_loop p node st parts =
     (case visit_loop p node (\<lambda>n. n) parts of
        Inl e \<Rightarrow> Inl e
      | Inr (x, st') \<Rightarrow> Inr (x, \<lambda>n. st (st' n)))"
proof (induction parts arbitrary: node st)
  case Nil
  show ?case by simp
next
  case (Cons part parts)
  show ?case
  proof (cases "visitPathPart p node part")
    case (Inl e)
    then show ?thesis by simp
  next
    case (Inr r)
    obtain child inner where r: "r = (child, inner)" by (cases r)
    show ?thesis
      using Inr r Cons.IH [of child "\<lambda>n. st (inner n)"] Cons.IH [of child "\<lambda>n. inner n"]
      by (auto split: sum.splits)
  qed
qed

lemma VisitPath_Cons:
  "VisitPath p d (part # parts) =
     (case visitPathPart p d part of
        Inl e \<Rightarrow> Inl e
      | Inr (child, st) \<Rightarrow>
          (case VisitPath p child parts of
             Inl e \<Rightarrow> Inl e
           | Inr (x, st') \<Rightarrow> Inr (x, \<lambda>n. st (st' n))))"
proof (cases "visitPathPart p d part")
  case (Inl e)
  then show ?thesis by (simp add: VisitPath_def)
next
  case (Inr r)
  obtain child st where r: "r = (child, st)" by (cases r)
  have "VisitPath p d (part # parts) = visit_loop p child st parts"
    using Inr r by (simp add: VisitPath_def)
  also have "\<dots> = (case visit_loop p child (\<lambda>n. n) parts of
        Inl e \<Rightarrow> Inl e
      | Inr (x, st') \<Rightarrow> Inr (x, \<lambda>n. st (st' n)))"
    by (rule visit_loop_setter)
  finally show ?thesis using Inr r by (simp add: VisitPath_def)
qed

text \<open>
  Claim C7. One descent step. On an object the step fails with \<^verbatim>\<open>ErrNotExists\<close> exactly
  when the key is absent, and otherwise returns the value of the key with a setter that
  binds that key. On an array it fails with \<^verbatim>\<open>ErrNotExists\<close> when the array is empty or the
  parsed index is the length, fails with the error of the index parser when the segment
  does not parse, and otherwise returns the element at the parsed index with a setter that
  rewrites that index. On a scalar it fails with the type error. With no segment the node
  visited is the root, with the setter that rebinds the root.
\<close>

theorem visitPathPart_spec:
  "visitPathPart p (JObject v) part =
     (case map_of v part of
        None \<Rightarrow> Inl ErrNotExists
      | Some g \<Rightarrow> Inr (g, \<lambda>n. JObject (AList.update part n v)))
   \<and> ((visitPathPart p (JObject v) part = Inl ErrNotExists) = (part \<notin> fst ` set v))
   \<and> map_of (AList.update part n v) = (map_of v)(part \<mapsto> n)
   \<and> visitPathPart p (JArray []) part = Inl ErrNotExists
   \<and> (xs \<noteq> [] \<longrightarrow> ParseArrayIndex p (int (length xs)) part = Inl e \<longrightarrow>
        visitPathPart p (JArray xs) part = Inl e)
   \<and> (xs \<noteq> [] \<longrightarrow> ParseArrayIndex p (int (length xs)) part = Inr i \<longrightarrow>
        0 \<le> i \<and> i \<le> int (length xs) \<and>
        visitPathPart p (JArray xs) part =
          (if i = int (length xs) then Inl ErrNotExists
           else Inr (xs ! nat i, \<lambda>n. JArray (xs[nat i := n]))))
   \<and> (is_scalar x \<longrightarrow> visitPathPart p x part = Inl CannotVisitType)
   \<and> VisitPath p d [] = Inr (d, \<lambda>n. n)"
proof -
  have obj: "visitPathPart p (JObject v) part =
     (case map_of v part of
        None \<Rightarrow> Inl ErrNotExists
      | Some g \<Rightarrow> Inr (g, \<lambda>n. JObject (AList.update part n v)))"
    by (simp add: visitPathPart_def)
  have absent: "(visitPathPart p (JObject v) part = Inl ErrNotExists) = (part \<notin> fst ` set v)"
  proof (cases "map_of v part")
    case None
    then have "part \<notin> fst ` set v" by (simp add: map_of_eq_None_iff)
    with None show ?thesis unfolding obj by simp
  next
    case (Some g)
    then have "part \<in> fst ` set v" by (auto dest!: map_of_SomeD intro: rev_image_eqI)
    with Some show ?thesis unfolding obj by simp
  qed
  have upd: "map_of (AList.update part n v) = (map_of v)(part \<mapsto> n)"
    by (rule update_conv')
  have empty: "visitPathPart p (JArray []) part = Inl ErrNotExists"
    by (simp add: visitPathPart_def)
  have bad: "visitPathPart p (JArray xs) part = Inl e"
    if "xs \<noteq> []" "ParseArrayIndex p (int (length xs)) part = Inl e"
    using that by (simp add: visitPathPart_def)
  have good: "0 \<le> i \<and> i \<le> int (length xs) \<and>
        visitPathPart p (JArray xs) part =
          (if i = int (length xs) then Inl ErrNotExists
           else Inr (xs ! nat i, \<lambda>n. JArray (xs[nat i := n])))"
    if "xs \<noteq> []" "ParseArrayIndex p (int (length xs)) part = Inr i"
  proof -
    have r: "0 \<le> i \<and> i \<le> int (length xs)"
      using ParseArrayIndex_range [OF that(2)] by simp
    then show ?thesis using that
      by (simp add: visitPathPart_def index_s_def slice_of_def)
  qed
  have scalar: "visitPathPart p x part = Inl CannotVisitType" if "is_scalar x"
    using that by (cases x) (simp_all add: visitPathPart_def is_scalar_def)
  have root: "VisitPath p d [] = Inr (d, \<lambda>n. n)"
    by (simp add: VisitPath_def)
  from obj absent upd empty bad good scalar root show ?thesis by blast
qed

lemma ParseArrayIndex_digit [simp]:
  "ParseArrayIndex (New []) 3 ''0'' = Inr 0"
  "ParseArrayIndex (New []) 3 ''1'' = Inr 1"
  "ParseArrayIndex (New []) 3 ''2'' = Inr 2"
  "ParseArrayIndex (New []) 3 ''3'' = Inr 3"
  "ParseArrayIndex (New []) 3 ''x'' = Inl (BadArrayIndex ''x'')"
  by (simp_all add: ParseArrayIndex_def New_def MatchString_indexRE is_index_def in_range_def
        is_digit_def Atoi_def decimal_def digit_val_def maxInt_def minInt_def)

theorem visitPathPart_spec_witness:
  "visitPathPart (New []) (JObject [(''a'', JNumber 1)]) ''a''
     = Inr (JNumber 1, \<lambda>n. JObject [(''a'', n)])
   \<and> visitPathPart (New []) (JObject [(''a'', JNumber 1)]) ''b'' = Inl ErrNotExists
   \<and> visitPathPart (New []) (JArray [JNumber 1, JNumber 2, JNumber 3]) ''x''
       = Inl (BadArrayIndex ''x'')
   \<and> visitPathPart (New []) (JArray [JNumber 1, JNumber 2, JNumber 3]) ''1''
       = Inr (JNumber 2, \<lambda>n. JArray [JNumber 1, n, JNumber 3])
   \<and> visitPathPart (New []) (JArray [JNumber 1, JNumber 2, JNumber 3]) ''3'' = Inl ErrNotExists
   \<and> visitPathPart (New []) (JString ''s'') ''a'' = Inl CannotVisitType"
  using visitPathPart_spec [of "New []" "[(''a'', JNumber 1)]" "''a''" JNull
          "[JNumber 1, JNumber 2, JNumber 3]" "BadArrayIndex ''x''" 1 "JString ''s''" JNull]
    visitPathPart_spec [of "New []" "[(''a'', JNumber 1)]" "''b''" JNull
          "[JNumber 1, JNumber 2, JNumber 3]" "BadArrayIndex ''x''" 3 "JString ''s''" JNull]
    visitPathPart_spec [of "New []" "[(''a'', JNumber 1)]" "''x''" JNull
          "[JNumber 1, JNumber 2, JNumber 3]" "BadArrayIndex ''x''" 3 "JString ''s''" JNull]
    visitPathPart_spec [of "New []" "[(''a'', JNumber 1)]" "''1''" JNull
          "[JNumber 1, JNumber 2, JNumber 3]" "BadArrayIndex ''x''" 1 "JString ''s''" JNull]
    visitPathPart_spec [of "New []" "[(''a'', JNumber 1)]" "''3''" JNull
          "[JNumber 1, JNumber 2, JNumber 3]" "BadArrayIndex ''x''" 3 "JString ''s''" JNull]
  by (simp add: is_scalar_def)

section \<open>Replace and move on arrays\<close>

text \<open>
  Claim C5. On an array, for a token that resolves to the index \<open>i\<close>: when \<open>i\<close> is the
  length, \<^verbatim>\<open>ReplaceValue\<close> fails with \<^verbatim>\<open>ErrNotExists\<close> if the patch is strict and otherwise
  returns without an error and leaves the document as it is; when \<open>i\<close> is below the length
  the element at \<open>i\<close> is overwritten and nothing else changes.
\<close>

theorem ReplaceValue_array:
  assumes "ParseArrayIndex p (int (length v)) key = Inr i"
  shows "ReplaceValue p (JArray v) st key value d =
           (if i = int (length v) then
              (if StrictPathExists p then (Some ErrNotExists, d) else (None, d))
            else (None, st (JArray (v[nat i := value]))))
         \<and> (i \<noteq> int (length v) \<longrightarrow> nat i < length v \<and> (v[nat i := value]) ! nat i = value)"
proof -
  have r: "0 \<le> i \<and> i \<le> int (length v)"
    using ParseArrayIndex_range [OF assms] by simp
  show ?thesis
  proof (cases "i = int (length v)")
    case True
    with assms show ?thesis by (simp add: ReplaceValue_def)
  next
    case False
    with r have k: "nat i < length v" by linarith
    have "assign_s (slice_of v) i value = Inr (Slice (v[nat i := value]) 0 (length v))"
      using r False by (simp add: assign_s_def slice_of_def)
    with assms False k show ?thesis
      by (simp add: ReplaceValue_def elems_def)
  qed
qed

theorem ReplaceValue_array_witness:
  "ReplaceValue (New []) (JArray [JNumber 1, JNumber 2, JNumber 3]) (\<lambda>n. n) ''3'' JNull JNull
     = (Some ErrNotExists, JNull)
   \<and> ReplaceValue (New [WithStrictPathExists False]) (JArray [JNumber 1, JNumber 2, JNumber 3])
        (\<lambda>n. n) ''3'' JNull JNull = (None, JNull)
   \<and> ReplaceValue (New []) (JArray [JNumber 1, JNumber 2, JNumber 3]) (\<lambda>n. n) ''1'' JNull JNull
     = (None, JArray [JNumber 1, JNull, JNumber 3])"
proof -
  have s: "ParseArrayIndex (New [WithStrictPathExists False])
             (int (length [JNumber 1, JNumber 2, JNumber 3])) ''3'' = Inr 3"
    by (simp add: ParseArrayIndex_def New_def WithStrictPathExists_def MatchString_indexRE
          is_index_def in_range_def is_digit_def Atoi_def decimal_def digit_val_def maxInt_def
          minInt_def)
  have a: "ParseArrayIndex (New []) (int (length [JNumber 1, JNumber 2, JNumber 3])) ''3'' = Inr 3"
    and b: "ParseArrayIndex (New []) (int (length [JNumber 1, JNumber 2, JNumber 3])) ''1'' = Inr 1"
    by simp_all
  show ?thesis
    using ReplaceValue_array [OF a, of "\<lambda>n. n" JNull JNull]
      ReplaceValue_array [OF s, of "\<lambda>n. n" JNull JNull]
      ReplaceValue_array [OF b, of "\<lambda>n. n" JNull JNull]
    by (simp add: New_def WithStrictPathExists_def)
qed




lemma MoveValue_array_from_append_slot:
  assumes "ParseArrayIndex p (int (length v)) from = Inr (int (length v))"
    and "ParseArrayIndex p (int (length v)) to = Inr ti"
    and "ti \<noteq> int (length v)"
  shows "MoveValue p (JArray v) st from to d = (Some (RuntimePanic IndexOutOfRange), d)"
  using assms by (simp add: MoveValue_def bindE_def index_s_def)



lemma Split_ex: "Split CHR ''/'' ''/a/-'' = ['''', ''a'', ''-'']" "Split CHR ''/'' ''/a/0'' = ['''', ''a'', ''0'']"
  by simp_all



section \<open>Validation before application\<close>

lemma Check_None_iff: "(Check p ops = None) = list_all (statically_valid p) ops"
proof (induction ops)
  case Nil
  show ?case by simp
next
  case (Cons x xs)
  then show ?case
    by (auto simp: statically_valid_def Operation_check_def split: option.splits)
qed

text \<open>
  Claim C4. If some operation of a list does not pass static validation (it lacks \<^verbatim>\<open>op\<close> or
  \<^verbatim>\<open>path\<close>, has a malformed pointer, names an operation that is not registered, or fails
  the check of its handler), then applying the list returns the error of the check and the
  document unchanged, whatever the handlers of the registry do when applied.
\<close>

theorem invalid_list_leaves_document:
  assumes "\<not> list_all (statically_valid p) ops"
  shows "\<exists>e. Check p ops = Some e \<and> applyAny p d ops = (Some e, d)"
proof -
  from assms have "Check p ops \<noteq> None" by (simp add: Check_None_iff)
  then obtain e where "Check p ops = Some e" by auto
  then show ?thesis by (simp add: applyAny_def)
qed

theorem invalid_list_leaves_document_witness:
  "\<not> list_all (statically_valid (New [])) [add_b, bad_pointer_op]
   \<and> Check (New []) [add_b, bad_pointer_op] = Some PointerMustStartWithSlash
   \<and> applyAny (New []) doc_a123 [add_b, bad_pointer_op] = (Some PointerMustStartWithSlash, doc_a123)
   \<and> fst (applyAny (New []) doc_a123 [add_b]) = None
   \<and> snd (applyAny (New []) doc_a123 [add_b]) \<noteq> doc_a123"
proof -
  have n: "\<not> list_all (statically_valid (New [])) [add_b, bad_pointer_op]"
    by (simp add: statically_valid_def bad_pointer_op_def pointer_Check_def)
  have c: "Check (New []) [add_b, bad_pointer_op] = Some PointerMustStartWithSlash"
    by (simp add: add_b_def bad_pointer_op_def New_def standard_extensions_def
          Operation_check_def pointer_Check_def addExtension_def add_Check_def)
  have c1: "Check (New []) [add_b] = None"
    by (simp add: add_b_def New_def standard_extensions_def
          Operation_check_def pointer_Check_def addExtension_def add_Check_def)
  have pp: "pointer_Path ''/b'' = [''b'']" by (simp add: pointer_Path_def)
  have ap: "add_Apply (config.truncate (New [])) doc_a123 add_b
      = (None, JObject [(''a'', JArray [JNumber 1, JNumber 2, JNumber 3]), (''b'', JNull)])"
    by (simp add: add_Apply_def add_b_def IsTheWholeDocument_def pointer_ParentPath_def pp
          pointer_LastToken_def VisitPath_def AddValue_def doc_a123_def)
  have a: "applyAny (New []) doc_a123 [add_b]
      = (None, JObject [(''a'', JArray [JNumber 1, JNumber 2, JNumber 3]), (''b'', JNull)])"
    using c1 ap
    by (simp add: applyAny_def New_def standard_extensions_def addExtension_def add_b_def)
  show ?thesis
    using n c invalid_list_leaves_document [OF n, of doc_a123] a by (simp add: doc_a123_def)
qed

section \<open>The test operation\<close>

lemma ParseArrayIndex_error:
  "ParseArrayIndex p sz s = Inl e \<Longrightarrow> navigator_error e"
  by (auto simp: ParseArrayIndex_def Atoi_def Let_def navigator_error_def
        split: if_splits sum.splits)

lemma visitPathPart_error:
  assumes "visitPathPart p node part = Inl e"
  shows "navigator_error e"
proof (cases node)
  case (JArray v)
  show ?thesis
  proof (cases "ParseArrayIndex p (int (length v)) part")
    case (Inl e')
    with assms JArray have "e = ErrNotExists \<or> e = e'"
      by (auto simp: visitPathPart_def split: if_splits)
    with ParseArrayIndex_error [OF Inl] show ?thesis by (auto simp: navigator_error_def)
  next
    case (Inr i)
    from ParseArrayIndex_range [OF Inr] have "0 \<le> i \<and> i \<le> int (length v)" by simp
    with assms JArray Inr have "e = ErrNotExists"
      by (auto simp: visitPathPart_def index_s_def slice_of_def split: if_splits)
    then show ?thesis by (simp add: navigator_error_def)
  qed
qed (use assms in \<open>auto simp: visitPathPart_def navigator_error_def split: option.splits\<close>)

lemma visit_loop_error:
  "visit_loop p node st parts = Inl e \<Longrightarrow> navigator_error e"
proof (induction parts arbitrary: node st)
  case Nil
  then show ?case by simp
next
  case (Cons part parts)
  then show ?case
    by (auto split: sum.splits dest: visitPathPart_error)
qed

lemma VisitPath_error: "VisitPath p d parts = Inl e \<Longrightarrow> navigator_error e"
  unfolding VisitPath_def by (rule visit_loop_error)

lemma navigator_error_plain:
  "navigator_error e \<Longrightarrow> \<not> errors_Is e ErrStop \<and> (\<forall>k. e \<noteq> RuntimePanic k)"
  by (cases e) (simp_all add: navigator_error_def)

lemma test_Apply_result:
  "test_Apply c d (test_op P V) =
     (case VisitPath c d (pointer_Path P) of
        Inl e \<Rightarrow> (if StrictPathExists c then Some (PathNotExists P e) else Some ErrStop, d)
      | Inr (value, st) \<Rightarrow> (if deepEqual value V then None else Some ErrStop, d))"
  by (auto simp: test_Apply_def test_op_def split: sum.splits)

lemma OP_test_op [simp]: "OP (test_op P V) = Some ''test''"
  by (simp add: test_op_def)

lemma ext_Apply_testExtension [simp]: "ext_Apply testExtension = test_Apply"
  by (simp add: testExtension_def)

text \<open>
  Claim C6. With the standard \<^verbatim>\<open>test\<close> handler, applying the single operation
  \<^verbatim>\<open>{"op":"test","path":P,"value":V}\<close> returns the document unchanged in every case. When
  the pointer is well formed: a match succeeds; a mismatch is reported as ``operation
  stopped''; a path that does not resolve is reported as ``operation stopped'' when the
  patch is not strict and as ``operation failed'' when it is. A malformed pointer is
  refused by the check.
\<close>

theorem test_operation:
  assumes "extensions p ''test'' = Some testExtension"
  shows "snd (applyAny p d [test_op P V]) = d
    \<and> (pointer_Check P \<noteq> None \<longrightarrow>
         fst (applyAny p d [test_op P V]) = Some PointerMustStartWithSlash)
    \<and> (pointer_Check P = None \<longrightarrow>
         fst (applyAny p d [test_op P V]) =
           (case VisitPath (config.truncate p) d (pointer_Path P) of
              Inr (value, st) \<Rightarrow>
                if deepEqual value V then None
                else Some (OperationStopped (''test '' @ P) ErrStop)
            | Inl e \<Rightarrow>
                if StrictPathExists p
                then Some (OperationFailed (''test '' @ P) (PathNotExists P e))
                else Some (OperationStopped (''test '' @ P) ErrStop)))"
proof (cases "pointer_Check P")
  case (Some e)
  then have e: "e = PointerMustStartWithSlash"
    by (auto simp: pointer_Check_def split: if_splits)
  have "Check p [test_op P V] = Some PointerMustStartWithSlash"
    using Some e by (simp add: Operation_check_def test_op_def)
  with Some show ?thesis by (simp add: applyAny_def)
next
  case None
  have c: "Check p [test_op P V] = None"
    using None assms
    by (simp add: Operation_check_def test_op_def testExtension_def test_Check_def)
  have desc: "describe p testExtension (test_op P V) = ''test '' @ P"
    by (simp add: describe_def testExtension_def test_op_def)
  have strict: "StrictPathExists (config.truncate p) = StrictPathExists p"
    by (simp add: config.truncate_def)
  show ?thesis
  proof (cases "VisitPath (config.truncate p) d (pointer_Path P)")
    case (Inl e)
    from VisitPath_error [OF Inl] have ne: "\<not> errors_Is e ErrStop" "\<And>k. e \<noteq> RuntimePanic k"
      using navigator_error_plain by blast+
    have "apply_loop p [test_op P V] d =
        (if StrictPathExists p then Some (OperationFailed (''test '' @ P) (PathNotExists P e))
         else Some (OperationStopped (''test '' @ P) ErrStop), d)"
      using assms Inl ne desc strict
      by (simp add: test_Apply_result)
    with c None Inl show ?thesis by (simp add: applyAny_def)
  next
    case (Inr r)
    obtain "value" st where r: "r = (value, st)" by (cases r)
    have "apply_loop p [test_op P V] d =
        (if deepEqual value V then None else Some (OperationStopped (''test '' @ P) ErrStop), d)"
      using assms Inr r desc
      by (simp add: test_Apply_result)
    with c None Inr r show ?thesis by (simp add: applyAny_def)
  qed
qed

theorem test_operation_witness:
  "extensions (New []) ''test'' = Some testExtension
   \<and> applyAny (New []) doc_a123 [test_op ''/a/1'' (JNumber 2)] = (None, doc_a123)
   \<and> applyAny (New []) doc_a123 [test_op ''/a/1'' (JNumber 5)]
       = (Some (OperationStopped ''test /a/1'' ErrStop), doc_a123)
   \<and> applyAny (New []) doc_a123 [test_op ''/b'' (JNumber 5)]
       = (Some (OperationFailed ''test /b'' (PathNotExists ''/b'' ErrNotExists)), doc_a123)
   \<and> applyAny (New [WithStrictPathExists False]) doc_a123 [test_op ''/b'' (JNumber 5)]
       = (Some (OperationStopped ''test /b'' ErrStop), doc_a123)"
proof -
  have e: "extensions (New []) ''test'' = Some testExtension"
    and e': "extensions (New [WithStrictPathExists False]) ''test'' = Some testExtension"
    by (simp_all add: New_def standard_extensions_def WithStrictPathExists_def)
  have pc: "pointer_Check ''/a/1'' = None" "pointer_Check ''/b'' = None"
    by (simp_all add: pointer_Check_def)
  have pp: "pointer_Path ''/a/1'' = [''a'', ''1'']" "pointer_Path ''/b'' = [''b'']"
    by (simp_all add: pointer_Path_def)
  have pa: "ParseArrayIndex (config.truncate (New [])) 3 ''1'' = Inr 1"
    by (simp add: ParseArrayIndex_def New_def config.truncate_def MatchString_indexRE
          is_index_def in_range_def is_digit_def Atoi_def decimal_def digit_val_def maxInt_def
          minInt_def)
  have v: "VisitPath (config.truncate (New [])) doc_a123 [''a'', ''1'']
      = Inr (JNumber 2, \<lambda>n. JObject [(''a'', JArray [JNumber 1, n, JNumber 3])])"
    by (simp add: VisitPath_def visitPathPart_def doc_a123_def pa index_s_def slice_of_def)
  have w: "VisitPath (config.truncate (New [])) doc_a123 [''b''] = Inl ErrNotExists"
    "VisitPath (config.truncate (New [WithStrictPathExists False])) doc_a123 [''b'']
       = Inl ErrNotExists"
    by (simp_all add: VisitPath_def visitPathPart_def doc_a123_def)
  have s: "StrictPathExists (New [])" "\<not> StrictPathExists (New [WithStrictPathExists False])"
    by (simp_all add: New_def WithStrictPathExists_def)
  show ?thesis
    using e test_operation [OF e, of doc_a123 "''/a/1''" "JNumber 2"]
      test_operation [OF e, of doc_a123 "''/a/1''" "JNumber 5"]
      test_operation [OF e, of doc_a123 "''/b''" "JNumber 5"]
      test_operation [OF e', of doc_a123 "''/b''" "JNumber 5"]
    by (simp add: pc pp v w s prod_eq_iff)
qed

end
